theory Spec2Isabelle
  imports Complex_Main
begin

section \<open>FGA: fast gradient attack on the structure of a graph\<close>

text \<open>
  A shallow embedding of \<^verbatim>\<open>deeprobust/graph/targeted_attack/fga.py\<close>: the class
  \<^verbatim>\<open>FGA\<close> with its constructor and its method \<^verbatim>\<open>attack\<close>.

  The dense working copy of the adjacency is a list of rows. Its entries are float32 in
  the source and real numbers here: the entries of a 0/1 adjacency and the steps of
  \<open>\<plusminus>1\<close> applied to them are small integers, on which both agree.
  Every exception the source can raise is a value of \<open>error\<close>, and a function that can
  raise returns \<open>error + 'a\<close>.
\<close>

subsection \<open>Data\<close>

type_synonym matrix = "real list list"

datatype error =
    IndexError
  | RuntimeError
  | AttributeError
  | NameError
  | AssertionError string
  | OracleError

text \<open>
  The attributes of an \<^verbatim>\<open>FGA\<close> object that the two methods read or write. An
  attribute that may not exist (or is \<^verbatim>\<open>None\<close>) is an option. The surrogate model is
  not stored: it is used through the gradient oracle only, a parameter of \<open>attack\<close>.
\<close>

record FGA =
  nnodes :: nat
  attack_structure :: bool
  attack_features :: bool
  adj_changes :: "real list option"
  feature_changes :: "real list option"
  modified_adj :: "matrix option"

subsection \<open>Tensor primitives\<close>

text \<open>Indexing a dimension of size \<open>n\<close> by a Python integer: a negative index counts
  from the end, anything outside \<open>-n \<dots> n - 1\<close> raises.\<close>

definition py_index :: "nat \<Rightarrow> int \<Rightarrow> error + nat" where
  "py_index n i =
     (if 0 \<le> i \<and> i < int n then Inr (nat i)
      else if - int n \<le> i \<and> i < 0 then Inr (nat (int n + i))
      else Inl IndexError)"

text \<open>An elementwise operation on two vectors: equal lengths, or one of them of
  length one and repeated; other shapes raise.\<close>

definition broadcast :: "(real \<Rightarrow> real \<Rightarrow> real) \<Rightarrow> real list \<Rightarrow> real list \<Rightarrow> error + real list" where
  "broadcast f xs ys =
     (if length xs = length ys then Inr (map2 f xs ys)
      else if length ys = 1 then Inr (map (\<lambda>x. f x (hd ys)) xs)
      else if length xs = 1 then Inr (map (\<lambda>y. f (hd xs) y) ys)
      else Inl RuntimeError)"

text \<open>\<^verbatim>\<open>m[t] = row\<close>: the row is copied into row \<open>t\<close>, repeated when it has length one.\<close>

definition set_row :: "matrix \<Rightarrow> nat \<Rightarrow> real list \<Rightarrow> error + matrix" where
  "set_row m t row =
     (if length row = length (m ! t) then Inr (m[t := row])
      else if length row = 1 then Inr (m[t := replicate (length (m ! t)) (hd row)])
      else Inl RuntimeError)"

text \<open>\<^verbatim>\<open>torch.argmax\<close> of a vector: the index of the first maximal entry; an empty
  vector raises. The scan keeps the best entry seen so far and its index, and replaces
  them only by a strictly greater entry.\<close>

fun argmax_scan :: "real \<Rightarrow> nat \<Rightarrow> nat \<Rightarrow> real list \<Rightarrow> nat" where
  "argmax_scan best bi i [] = bi"
| "argmax_scan best bi i (x # xs) =
     (if best < x then argmax_scan x i (Suc i) xs else argmax_scan best bi (Suc i) xs)"

definition argmax :: "real list \<Rightarrow> error + nat" where
  "argmax xs = (case xs of [] \<Rightarrow> Inl RuntimeError | x # r \<Rightarrow> Inr (argmax_scan x 0 1 r))"

text \<open>\<^verbatim>\<open>m.data[r][c] += v\<close> with Python indices \<open>r\<close> and \<open>c\<close>: the value is added to
  what the cell holds.\<close>

definition add_at :: "matrix \<Rightarrow> int \<Rightarrow> int \<Rightarrow> real \<Rightarrow> error + matrix" where
  "add_at m r c v =
     (case py_index (length m) r of Inl e \<Rightarrow> Inl e | Inr i \<Rightarrow>
      case py_index (length (m ! i)) c of Inl e \<Rightarrow> Inl e | Inr j \<Rightarrow>
        Inr (m[i := (m ! i)[j := m ! i ! j + v]]))"

text \<open>\<^verbatim>\<open>range(n)\<close> of a Python integer: empty when \<open>n \<le> 0\<close>.\<close>

definition py_range :: "int \<Rightarrow> nat list" where
  "py_range n = [0..<nat n]"

subsection \<open>The constructor\<close>

text \<open>
  Modelled from the spec: \<^verbatim>\<open>BaseAttack.__init__\<close> is not among the sources. It is taken
  to store its arguments as attributes, which \<^verbatim>\<open>FGA.__init__\<close> reads back right after
  the call, and to leave the result field unset.
\<close>

definition base_init :: "nat \<Rightarrow> bool \<Rightarrow> bool \<Rightarrow> FGA" where
  "base_init n structure features =
     \<lparr>nnodes = n, attack_structure = structure, attack_features = features,
      adj_changes = None, feature_changes = None, modified_adj = None\<rparr>"

text \<open>\<^verbatim>\<open>FGA.__init__(model, nnodes, feature_shape, attack_structure, attack_features,
  device)\<close>. The assertion stands between the two allocations, so the second one is
  reached only with \<open>attack_features\<close> false.\<close>

definition init :: "nat \<Rightarrow> nat list \<Rightarrow> bool \<Rightarrow> bool \<Rightarrow> error + FGA" where
  "init n feature_shape structure features =
     (let self = base_init n structure features;
          self = (if attack_structure self
                  then self\<lparr>adj_changes := Some (replicate n 0)\<rparr> else self)
      in if attack_features self
         then Inl (AssertionError ''not support attacking features'')
         else if attack_features self
         then Inr (self\<lparr>feature_changes := Some (replicate (prod_list feature_shape) 0)\<rparr>)
         else Inr self)"

subsection \<open>One iteration of the loop\<close>

text \<open>Lines 106 to 108: the gradient is multiplied by \<open>-2 * modified_row + 1\<close>, its
  entry at the target is set to zero, and the argmax is taken.\<close>

definition select_flip :: "real list \<Rightarrow> real list \<Rightarrow> int \<Rightarrow> error + nat" where
  "select_flip g modified_row target_node =
     (case broadcast (*) g (map (\<lambda>x. - 2 * x + 1) modified_row) of
        Inl e \<Rightarrow> Inl e
      | Inr grad \<Rightarrow>
     case py_index (length grad) target_node of
        Inl e \<Rightarrow> Inl e
      | Inr t \<Rightarrow> argmax (grad[t := 0]))"

text \<open>Lines 110 to 112: the step \<open>value\<close> is read from \<open>modified_row\<close>, a tensor of its
  own, and added to the two mirrored cells one after the other.\<close>

definition apply_flip :: "matrix \<Rightarrow> real list \<Rightarrow> int \<Rightarrow> nat \<Rightarrow> error + matrix \<times> real" where
  "apply_flip m modified_row target_node grad_argmax =
     (if length modified_row \<le> grad_argmax then Inl IndexError
      else let v = - 2 * modified_row ! grad_argmax + 1 in
        case add_at m target_node (int grad_argmax) v of
          Inl e \<Rightarrow> Inl e
        | Inr m1 \<Rightarrow>
        case add_at m1 (int grad_argmax) target_node v of
          Inl e \<Rightarrow> Inl e
        | Inr m2 \<Rightarrow> Inr (m2, v))"

text \<open>
  The gradient oracle \<open>G\<close> stands for lines 99 to 105: normalising the adjacency, the
  forward pass of the surrogate, the loss on the training indices and its gradient with
  respect to \<open>adj_changes\<close>. It is given the features, the adjacency with the target row
  replaced, the labels, the training indices and the number of the iteration (what
  autograd returns may depend on the graph retained from earlier iterations), and it
  returns the gradient or raises.

  The body of the loop, lines 97 to 112. It returns the adjacency after the flip and,
  for the record, the column chosen and the step added.
\<close>

definition attack_step ::
  "('f \<Rightarrow> matrix \<Rightarrow> 'l \<Rightarrow> nat list \<Rightarrow> nat \<Rightarrow> error + real list) \<Rightarrow> FGA \<Rightarrow>
     'f \<Rightarrow> 'l \<Rightarrow> nat list \<Rightarrow> int \<Rightarrow> nat \<Rightarrow> matrix \<Rightarrow> error + matrix \<times> (nat \<times> real)" where
  "attack_step G self feats labels idx_train target_node i madj =
     (case py_index (length madj) target_node of Inl e \<Rightarrow> Inl e | Inr t \<Rightarrow>
      case adj_changes self of None \<Rightarrow> Inl AttributeError | Some changes \<Rightarrow>
      case broadcast (+) (madj ! t) changes of Inl e \<Rightarrow> Inl e | Inr modified_row \<Rightarrow>
      case set_row madj t modified_row of Inl e \<Rightarrow> Inl e | Inr madj1 \<Rightarrow>
      if \<not> attack_structure self then Inl NameError
      else
      case G feats madj1 labels idx_train i of Inl e \<Rightarrow> Inl e | Inr g \<Rightarrow>
      case select_flip g modified_row target_node of Inl e \<Rightarrow> Inl e | Inr grad_argmax \<Rightarrow>
      case apply_flip madj1 modified_row target_node grad_argmax of
        Inl e \<Rightarrow> Inl e
      | Inr (madj2, v) \<Rightarrow> Inr (madj2, (grad_argmax, v)))"

subsection \<open>The loop and the method\<close>

text \<open>The loop over \<^verbatim>\<open>range(n_perturbations)\<close>, on the adjacency and the log of the
  flips made so far. An exception ends it.\<close>

fun attack_loop ::
  "('f \<Rightarrow> matrix \<Rightarrow> 'l \<Rightarrow> nat list \<Rightarrow> nat \<Rightarrow> error + real list) \<Rightarrow> FGA \<Rightarrow>
     'f \<Rightarrow> 'l \<Rightarrow> nat list \<Rightarrow> int \<Rightarrow> nat list \<Rightarrow> matrix \<times> (nat \<times> real) list \<Rightarrow>
     error + matrix \<times> (nat \<times> real) list" where
  "attack_loop G self feats labels idx_train target_node [] st = Inr st"
| "attack_loop G self feats labels idx_train target_node (i # rest) (madj, flips) =
     (case attack_step G self feats labels idx_train target_node i madj of
        Inl e \<Rightarrow> Inl e
      | Inr (madj', flip) \<Rightarrow>
          attack_loop G self feats labels idx_train target_node rest (madj', flips @ [flip]))"

text \<open>
  \<^verbatim>\<open>attack(ori_features, ori_adj, labels, idx_train, target_node, n_perturbations)\<close>.
  The conversions between sparse, dense and tensor forms keep the entries and are left
  out. \<^verbatim>\<open>check_adj\<close> is inherited from \<^verbatim>\<open>BaseAttack\<close>, which is not among the sources:
  it is the parameter \<open>chk\<close>, which returns the exception it raises, if any. The result
  is the object with its field \<open>modified_adj\<close> set.
\<close>

definition attack ::
  "('f \<Rightarrow> matrix \<Rightarrow> 'l \<Rightarrow> nat list \<Rightarrow> nat \<Rightarrow> error + real list) \<Rightarrow> (matrix \<Rightarrow> error option) \<Rightarrow>
     FGA \<Rightarrow> 'f \<Rightarrow> matrix \<Rightarrow> 'l \<Rightarrow> nat list \<Rightarrow> int \<Rightarrow> int \<Rightarrow> error + FGA" where
  "attack G chk self ori_features ori_adj labels idx_train target_node n_perturbations =
     (case attack_loop G self ori_features labels idx_train target_node
             (py_range n_perturbations) (ori_adj, []) of
        Inl e \<Rightarrow> Inl e
      | Inr (madj, flips) \<Rightarrow>
          (case chk madj of
             Some e \<Rightarrow> Inl e
           | None \<Rightarrow> Inr (self\<lparr>modified_adj := Some madj\<rparr>)))"

subsection \<open>Shapes, symmetry and the flip as the specification words it\<close>

text \<open>An adjacency of \<open>n\<close> nodes has \<open>n\<close> rows of \<open>n\<close> entries.\<close>

definition square :: "nat \<Rightarrow> matrix \<Rightarrow> bool" where
  "square n m \<longleftrightarrow> length m = n \<and> list_all (\<lambda>r. length r = n) m"

text \<open>\<open>A[u][v] = A[v][u]\<close> for all nodes \<open>u\<close> and \<open>v\<close>.\<close>

definition symmetric :: "matrix \<Rightarrow> bool" where
  "symmetric m \<longleftrightarrow>
     list_all (\<lambda>u. list_all (\<lambda>v. m ! u ! v = m ! v ! u) [0..<length m]) [0..<length m]"

text \<open>The specification's selection, steps 1 to 3: the direction \<open>-2 * row[c] + 1\<close> of
  each column, the gradient times the direction, and zero at the target.\<close>

definition adjusted_score :: "real list \<Rightarrow> real list \<Rightarrow> nat \<Rightarrow> real list" where
  "adjusted_score g row t = (map2 (*) g (map (\<lambda>c. - 2 * c + 1) row))[t := 0]"

text \<open>Step 4: \<open>b\<close> is the first index that attains the maximum of \<open>xs\<close>.\<close>

definition first_max :: "real list \<Rightarrow> nat \<Rightarrow> bool" where
  "first_max xs b \<longleftrightarrow>
     b < length xs \<and> list_all (\<lambda>j. xs ! j \<le> xs ! b) [0..<length xs] \<and>
     list_all (\<lambda>j. xs ! j < xs ! b) [0..<b]"

text \<open>Step 5: \<open>adjacency[t][b] += v\<close>, then \<open>adjacency[b][t] += v\<close>, on natural
  indices and with no clamping.\<close>

definition mirrored_add :: "matrix \<Rightarrow> nat \<Rightarrow> nat \<Rightarrow> real \<Rightarrow> matrix" where
  "mirrored_add m t b v =
     (let m1 = m[t := (m ! t)[b := m ! t ! b + v]]
      in m1[b := (m1 ! b)[t := m1 ! b ! t + v]])"

text \<open>
  The run of the loop as the specification words it, as a relation: over the iterations
  \<open>iters\<close>, from the adjacency \<open>m\<close>, the flips \<open>(best, delta)\<close> are made one per iteration
  and lead to \<open>m'\<close>. At iteration \<open>i\<close> the oracle is asked for the gradient at the current
  adjacency, \<open>best\<close> is the first maximum of its adjusted score,
  \<open>delta = -2 * row[best] + 1\<close>, and the mirrored addition gives the adjacency of the
  next iteration.
\<close>

fun spec_flips ::
  "('f \<Rightarrow> matrix \<Rightarrow> 'l \<Rightarrow> nat list \<Rightarrow> nat \<Rightarrow> error + real list) \<Rightarrow> 'f \<Rightarrow> 'l \<Rightarrow> nat list \<Rightarrow>
     nat \<Rightarrow> nat list \<Rightarrow> matrix \<Rightarrow> (nat \<times> real) list \<Rightarrow> matrix \<Rightarrow> bool" where
  "spec_flips G feats labels idx_train t [] m [] m' \<longleftrightarrow> m' = m"
| "spec_flips G feats labels idx_train t (i # rest) m ((best, delta) # flips) m' \<longleftrightarrow>
     (case G feats m labels idx_train i of
        Inl e \<Rightarrow> False
      | Inr g \<Rightarrow>
          first_max (adjusted_score g (m ! t) t) best \<and> delta = - 2 * m ! t ! best + 1 \<and>
          spec_flips G feats labels idx_train t rest (mirrored_add m t best delta) flips m')"
| "spec_flips G feats labels idx_train t [] m (fl # flips) m' \<longleftrightarrow> False"
| "spec_flips G feats labels idx_train t (i # rest) m [] m' \<longleftrightarrow> False"

subsection \<open>Test data\<close>

text \<open>
  Modelled from the spec: \<^verbatim>\<open>check_adj\<close> of \<^verbatim>\<open>BaseAttack\<close>, which is not among the
  sources, as the specification presumes it: it accepts a symmetric matrix of zeros and
  ones with no self-loop and raises otherwise. Only the examples use it; every theorem
  about \<open>attack\<close> holds for any check.
\<close>

definition check_adj :: "matrix \<Rightarrow> error option" where
  "check_adj m =
     (if symmetric m \<and> list_all (list_all (\<lambda>x. x = 0 \<or> x = 1)) m \<and>
         list_all (\<lambda>u. m ! u ! u = 0) [0..<length m]
      then None else Some (AssertionError ''check_adj''))"

text \<open>The ring of four nodes, the path of three, an oracle that returns one and the same
  gradient, and the object that \<^verbatim>\<open>FGA(model, nnodes=n)\<close> constructs.\<close>

definition ring4 :: matrix where
  "ring4 = [[0, 1, 0, 1], [1, 0, 1, 0], [0, 1, 0, 1], [1, 0, 1, 0]]"

definition path3 :: matrix where
  "path3 = [[0, 1, 0], [1, 0, 1], [0, 1, 0]]"

definition stub_oracle ::
  "real list \<Rightarrow> unit \<Rightarrow> matrix \<Rightarrow> unit \<Rightarrow> nat list \<Rightarrow> nat \<Rightarrow> error + real list" where
  "stub_oracle g feats madj labels idx_train i = Inr g"

definition fga :: "nat \<Rightarrow> FGA" where
  "fga n = \<lparr>nnodes = n, attack_structure = True, attack_features = False,
     adj_changes = Some (replicate n 0), feature_changes = None, modified_adj = None\<rparr>"

lemmas eval_defs = attack_step_def select_flip_def apply_flip_def add_at_def set_row_def
  broadcast_def py_index_def argmax_def py_range_def stub_oracle_def fga_def ring4_def
  path3_def adjusted_score_def

section \<open>Auxiliary facts\<close>

subsection \<open>Indices, vectors and matrices\<close>

lemma square_nth: "square n m \<Longrightarrow> u < n \<Longrightarrow> length (m ! u) = n"
  by (simp add: square_def list_all_length)

lemma square_length: "square n m \<Longrightarrow> length m = n"
  by (simp add: square_def)

lemma square_update: "square n m \<Longrightarrow> length r = n \<Longrightarrow> square n (m[u := r])"
  by (auto simp: square_def list_all_iff dest: set_update_subset_insert [THEN subsetD])

lemma symmetric_nth:
  "symmetric m \<longleftrightarrow> (\<forall>u<length m. \<forall>v<length m. m ! u ! v = m ! v ! u)"
  by (auto simp: symmetric_def list_all_iff)

lemma py_index_less: "py_index n i = Inr t \<Longrightarrow> t < n"
  by (auto simp: py_index_def split: if_splits)

lemma py_index_nat: "b < n \<Longrightarrow> py_index n (int b) = Inr b"
  by (simp add: py_index_def)

lemma broadcast_length:
  "broadcast f xs ys = Inr zs \<Longrightarrow>
     length zs = length xs \<or> (length xs = 1 \<and> length zs = length ys)"
  by (auto simp: broadcast_def split: if_splits)

lemma broadcast_zero: "length xs = n \<Longrightarrow> broadcast (+) xs (replicate n 0) = Inr xs"
  by (auto simp: broadcast_def intro: nth_equalityI)

lemma broadcast_mult_same:
  "length g = length row \<Longrightarrow> broadcast (*) g (map h row) = Inr (map2 (*) g (map h row))"
  by (simp add: broadcast_def)

lemma mirrored_add_square:
  "square n m \<Longrightarrow> t < n \<Longrightarrow> b < n \<Longrightarrow> square n (mirrored_add m t b v)"
  by (simp add: mirrored_add_def Let_def square_update square_nth square_length)

lemma mirrored_add_nth:
  assumes "square n m" "t < n" "b < n" "u < n" "w < n"
  shows "mirrored_add m t b v ! u ! w =
     (if (u = t \<and> w = b) \<or> (u = b \<and> w = t)
      then (if t = b then m ! t ! t + 2 * v else m ! u ! w + v) else m ! u ! w)"
  using assms
  by (auto simp: mirrored_add_def Let_def square_length square_nth nth_list_update)

lemma mirrored_add_symmetric:
  assumes "square n m" "symmetric m" "t < n" "b < n"
  shows "symmetric (mirrored_add m t b v)"
proof -
  have len: "length (mirrored_add m t b v) = n"
    using mirrored_add_square [OF assms(1,3,4)] by (simp add: square_def)
  have sym: "\<And>u w. u < n \<Longrightarrow> w < n \<Longrightarrow> m ! u ! w = m ! w ! u"
    using assms(1,2) by (simp add: symmetric_nth square_def)
  show ?thesis
    unfolding symmetric_nth len
    using assms(3,4) sym by (auto simp: mirrored_add_nth [OF assms(1,3,4)])
qed

lemma add_at_nat:
  assumes "square n m" "py_index n target = Inr t" "b < n"
  shows "add_at m target (int b) v = Inr (m[t := (m ! t)[b := m ! t ! b + v]])"
    and "add_at m (int b) target v = Inr (m[b := (m ! b)[t := m ! b ! t + v]])"
  using assms py_index_less [OF assms(2)]
  by (simp_all add: add_at_def square_length square_nth py_index_nat)

lemma add_at_twice:
  assumes "square n m" "py_index n target = Inr t" "b < n"
  shows "(case add_at m target (int b) v of
            Inl e \<Rightarrow> Inl e
          | Inr m1 \<Rightarrow>
          case add_at m1 (int b) target v of
            Inl e \<Rightarrow> Inl e
          | Inr m2 \<Rightarrow> Inr (m2, v)) = Inr (mirrored_add m t b v, v)"
proof -
  have t: "t < n" using assms(2) by (rule py_index_less)
  have sq1: "square n (m[t := (m ! t)[b := m ! t ! b + v]])"
    using assms(1) t by (simp add: square_update square_nth)
  show ?thesis
    by (simp add: add_at_nat(1) [OF assms(1,2,3)] add_at_nat(2) [OF sq1 assms(2,3)]
        mirrored_add_def Let_def)
qed

lemma apply_flip_square:
  assumes "square n m" "py_index n target = Inr t" "b < n" "length row = n"
  shows "apply_flip m row target b =
     Inr (mirrored_add m t b (- 2 * row ! b + 1), - 2 * row ! b + 1)"
  unfolding apply_flip_def Let_def
  using assms(3,4) by (simp only: add_at_twice [OF assms(1,2,3)]) simp

lemma argmax_scan_cases:
  "(argmax_scan best bi i xs = bi \<and> (\<forall>x\<in>set xs. x \<le> best)) \<or>
   (\<exists>j<length xs. argmax_scan best bi i xs = i + j \<and> best < xs ! j \<and>
        (\<forall>x\<in>set xs. x \<le> xs ! j) \<and> (\<forall>j'<j. xs ! j' < xs ! j))"
proof (induction xs arbitrary: best bi i)
  case Nil
  then show ?case by simp
next
  case (Cons x xs)
  show ?case
  proof (cases "best < x")
    case True
    from Cons.IH [of x i "Suc i"] show ?thesis
    proof
      assume h: "argmax_scan x i (Suc i) xs = i \<and> (\<forall>y\<in>set xs. y \<le> x)"
      have "0 < length (x # xs) \<and> argmax_scan best bi i (x # xs) = i + 0 \<and> best < (x # xs) ! 0 \<and>
        (\<forall>y\<in>set (x # xs). y \<le> (x # xs) ! 0) \<and> (\<forall>j'<0. (x # xs) ! j' < (x # xs) ! 0)"
        using True h by simp
      then show ?thesis by blast
    next
      assume "\<exists>j<length xs. argmax_scan x i (Suc i) xs = Suc i + j \<and> x < xs ! j \<and>
        (\<forall>y\<in>set xs. y \<le> xs ! j) \<and> (\<forall>j'<j. xs ! j' < xs ! j)"
      then obtain j where j: "j < length xs" "argmax_scan x i (Suc i) xs = Suc i + j" "x < xs ! j"
        "\<forall>y\<in>set xs. y \<le> xs ! j" "\<forall>j'<j. xs ! j' < xs ! j" by blast
      have "Suc j < length (x # xs) \<and> argmax_scan best bi i (x # xs) = i + Suc j \<and>
        best < (x # xs) ! Suc j \<and> (\<forall>y\<in>set (x # xs). y \<le> (x # xs) ! Suc j) \<and>
        (\<forall>j'<Suc j. (x # xs) ! j' < (x # xs) ! Suc j)"
        using True j by (auto simp: less_Suc_eq_0_disj)
      then show ?thesis by blast
    qed
  next
    case False
    from Cons.IH [of best bi "Suc i"] show ?thesis
    proof
      assume "argmax_scan best bi (Suc i) xs = bi \<and> (\<forall>y\<in>set xs. y \<le> best)"
      then show ?thesis using False by simp
    next
      assume "\<exists>j<length xs. argmax_scan best bi (Suc i) xs = Suc i + j \<and> best < xs ! j \<and>
        (\<forall>y\<in>set xs. y \<le> xs ! j) \<and> (\<forall>j'<j. xs ! j' < xs ! j)"
      then obtain j where j: "j < length xs" "argmax_scan best bi (Suc i) xs = Suc i + j"
        "best < xs ! j" "\<forall>y\<in>set xs. y \<le> xs ! j" "\<forall>j'<j. xs ! j' < xs ! j" by blast
      have "Suc j < length (x # xs) \<and> argmax_scan best bi i (x # xs) = i + Suc j \<and>
        best < (x # xs) ! Suc j \<and> (\<forall>y\<in>set (x # xs). y \<le> (x # xs) ! Suc j) \<and>
        (\<forall>j'<Suc j. (x # xs) ! j' < (x # xs) ! Suc j)"
        using False j by (auto simp: less_Suc_eq_0_disj)
      then show ?thesis by blast
    qed
  qed
qed

lemma argmax_first_max:
  assumes "xs \<noteq> []"
  shows "\<exists>k. argmax xs = Inr k \<and> k < length xs \<and> (\<forall>j<length xs. xs ! j \<le> xs ! k) \<and>
    (\<forall>j<k. xs ! j < xs ! k)"
proof -
  from assms obtain x r where xs: "xs = x # r" by (cases xs) auto
  from argmax_scan_cases [of x 0 1 r] show ?thesis
  proof
    assume h: "argmax_scan x 0 1 r = 0 \<and> (\<forall>y\<in>set r. y \<le> x)"
    have "\<forall>j<length xs. xs ! j \<le> xs ! 0"
      using h xs by (auto simp: nth_Cons split: nat.splits)
    then show ?thesis using h xs by (simp add: argmax_def)
  next
    assume "\<exists>j<length r. argmax_scan x 0 1 r = 1 + j \<and> x < r ! j \<and>
        (\<forall>y\<in>set r. y \<le> r ! j) \<and> (\<forall>j'<j. r ! j' < r ! j)"
    then obtain j where j: "j < length r" "argmax_scan x 0 1 r = 1 + j" "x < r ! j"
        "\<forall>y\<in>set r. y \<le> r ! j" "\<forall>j'<j. r ! j' < r ! j" by blast
    have a: "\<forall>j'<length xs. xs ! j' \<le> xs ! Suc j"
      using j xs by (auto simp: nth_Cons split: nat.splits)
    have b: "\<forall>j'<Suc j. xs ! j' < xs ! Suc j"
      using j xs by (auto simp: nth_Cons split: nat.splits)
    show ?thesis using a b j xs by (simp add: argmax_def)
  qed
qed


lemma set_row_same:
  "set_row m t row = Inr m1 \<Longrightarrow> length row = length (m ! t) \<Longrightarrow> m1 = m[t := row]"
  by (simp add: set_row_def)

lemma set_row_length:
  "set_row m t row = Inr m1 \<Longrightarrow> length row = length (m ! t) \<or> length row = 1"
  by (auto simp: set_row_def split: if_splits)

lemma attack_step_Inr:
  assumes sq: "square n m"
    and st: "attack_step G self f l ix target i m = Inr (m', fl)"
  shows "\<exists>t ch row g b. py_index n target = Inr t \<and> adj_changes self = Some ch \<and>
     attack_structure self \<and> broadcast (+) (m ! t) ch = Inr row \<and> length row = n \<and>
     G f (m[t := row]) l ix i = Inr g \<and> select_flip g row target = Inr b \<and> b < n \<and>
     fl = (b, - 2 * row ! b + 1) \<and> m' = mirrored_add (m[t := row]) t b (- 2 * row ! b + 1)"
proof -
  from st obtain t ch row m1 g b m2 v where
    pt: "py_index (length m) target = Inr t" and ch: "adj_changes self = Some ch"
    and row: "broadcast (+) (m ! t) ch = Inr row" and m1: "set_row m t row = Inr m1"
    and as: "attack_structure self" and g: "G f m1 l ix i = Inr g"
    and sel: "select_flip g row target = Inr b"
    and fl: "apply_flip m1 row target b = Inr (m2, v)" and res: "m' = m2" "fl = (b, v)"
    by (auto simp: attack_step_def split: sum.splits option.splits if_splits prod.splits)
  have len: "length m = n" using sq by (rule square_length)
  have t: "t < n" using pt len py_index_less by auto
  have rt: "length (m ! t) = n" using sq t by (rule square_nth)
  have lrow: "length row = n"
    using broadcast_length [OF row] set_row_length [OF m1] rt by auto
  have m1': "m1 = m[t := row]" using set_row_same [OF m1] lrow rt by simp
  have sq1: "square n m1" unfolding m1' using sq lrow by (rule square_update)
  have b: "b < n" using fl lrow by (auto simp: apply_flip_def split: if_splits)
  have "apply_flip m1 row target b =
     Inr (mirrored_add m1 t b (- 2 * row ! b + 1), - 2 * row ! b + 1)"
    using sq1 _ b lrow by (rule apply_flip_square) (use pt len in simp)
  with fl have "m2 = mirrored_add m1 t b (- 2 * row ! b + 1)" "v = - 2 * row ! b + 1"
    by auto
  then show ?thesis using pt len ch as row lrow g sel b res m1' by auto
qed

lemma attack_step_zero:
  assumes sq: "square n m" and ch: "adj_changes self = Some (replicate n 0)"
    and as: "attack_structure self" and pt: "py_index n target = Inr t"
    and g: "G f m l ix i = Inr g" and lg: "length g = n"
  shows "\<exists>b. argmax ((map2 (*) g (map (\<lambda>x. - 2 * x + 1) (m ! t)))[t := 0]) = Inr b \<and> b < n \<and>
     attack_step G self f l ix target i m =
       Inr (mirrored_add m t b (- 2 * m ! t ! b + 1), (b, - 2 * m ! t ! b + 1))"
proof -
  have len: "length m = n" using sq by (rule square_length)
  have t: "t < n" using pt by (rule py_index_less)
  have rt: "length (m ! t) = n" using sq t by (rule square_nth)
  have row: "broadcast (+) (m ! t) (replicate n 0) = Inr (m ! t)"
    using rt by (rule broadcast_zero)
  have sr: "set_row m t (m ! t) = Inr m" by (simp add: set_row_def)
  let ?score = "(map2 (*) g (map (\<lambda>x. - 2 * x + 1) (m ! t)))[t := 0]"
  have ne: "?score \<noteq> []" using t lg rt by auto
  from argmax_first_max [OF ne] obtain b where b: "argmax ?score = Inr b" "b < length ?score"
    by blast
  have bn: "b < n" using b(2) lg rt by simp
  have sel: "select_flip g (m ! t) target = Inr b"
    using b(1) pt lg rt by (simp add: select_flip_def broadcast_mult_same)
  have fl: "apply_flip m (m ! t) target b =
     Inr (mirrored_add m t b (- 2 * m ! t ! b + 1), - 2 * m ! t ! b + 1)"
    using sq pt bn rt by (rule apply_flip_square)
  have "attack_step G self f l ix target i m =
       Inr (mirrored_add m t b (- 2 * m ! t ! b + 1), (b, - 2 * m ! t ! b + 1))"
    by (simp add: attack_step_def len pt ch row sr as g sel fl)
  with b(1) bn show ?thesis by blast
qed

lemma init_fga: "init n fs True False = Inr (fga n)"
  by (simp add: init_def base_init_def fga_def Let_def)

lemma first_max_iff:
  "first_max xs b \<longleftrightarrow>
     b < length xs \<and> (\<forall>j<length xs. xs ! j \<le> xs ! b) \<and> (\<forall>j<b. xs ! j < xs ! b)"
  by (auto simp: first_max_def list_all_iff)

lemma argmax_is_first_max:
  "xs \<noteq> [] \<Longrightarrow> argmax xs = Inr b \<Longrightarrow> first_max xs b"
  using argmax_first_max [of xs] by (auto simp: first_max_iff)



lemma select_flip_score:
  assumes "py_index n target = Inr t" "length g = n" "length row = n"
  shows "select_flip g row target = argmax (adjusted_score g row t)"
  using assms by (simp add: select_flip_def broadcast_mult_same adjusted_score_def)

lemma first_max_unique: "first_max xs a \<Longrightarrow> first_max xs b \<Longrightarrow> a = b"
  unfolding first_max_iff by (metis linorder_neqE_nat not_le)

subsection \<open>One iteration and the loop\<close>

lemma init_Inr:
  assumes "init n fs st ft = Inr self"
  shows "adj_changes self = (if st then Some (replicate n 0) else None)"
    and "attack_structure self = st" and "\<not> attack_features self" and "nnodes self = n"
    and "modified_adj self = None"
  using assms by (auto simp: init_def base_init_def Let_def split: if_splits)

lemma attack_step_square:
  assumes "square n m" "attack_step G self f l ix target i m = Inr (m', fl)"
  shows "square n m'"
proof -
  from attack_step_Inr [OF assms] obtain t row b where
    t: "py_index n target = Inr t" and row: "length row = n" and b: "b < n"
    and m': "m' = mirrored_add (m[t := row]) t b (- 2 * row ! b + 1)" by blast
  show ?thesis unfolding m'
    using square_update [OF assms(1) row] py_index_less [OF t] b
    by (rule mirrored_add_square)
qed

lemma attack_step_frame:
  assumes "square n m" "attack_step G self f l ix target i m = Inr (m', fl)"
    "py_index n target = Inr t" "u < n" "w < n" "u \<noteq> t" "w \<noteq> t"
  shows "m' ! u ! w = m ! u ! w"
proof -
  from attack_step_Inr [OF assms(1,2)] assms(3) obtain row b where
    row: "length row = n" and b: "b < n"
    and m': "m' = mirrored_add (m[t := row]) t b (- 2 * row ! b + 1)" by auto
  have t: "t < n" using assms(3) by (rule py_index_less)
  have sq: "square n (m[t := row])" using assms(1) row by (rule square_update)
  show ?thesis unfolding m'
    using assms(6,7) by (simp add: mirrored_add_nth [OF sq t b assms(4,5)])
qed

lemma attack_step_symmetric:
  assumes "square n m" "attack_step G self f l ix target i m = Inr (m', fl)"
    "adj_changes self = Some (replicate n 0)" "symmetric m"
  shows "symmetric m'"
proof -
  from attack_step_Inr [OF assms(1,2)] assms(3) obtain t row b where
    t: "py_index n target = Inr t" and br: "broadcast (+) (m ! t) (replicate n 0) = Inr row"
    and b: "b < n"
    and m': "m' = mirrored_add (m[t := row]) t b (- 2 * row ! b + 1)" by auto
  have tn: "t < n" using t by (rule py_index_less)
  have "row = m ! t" using br broadcast_zero [OF square_nth [OF assms(1) tn]] by simp
  then have "m' = mirrored_add m t b (- 2 * row ! b + 1)" using m' by simp
  then show ?thesis using mirrored_add_symmetric [OF assms(1,4) tn b] by simp
qed

lemma attack_loop_square:
  "attack_loop G self f l ix target is (m, hist) = Inr (m', hist') \<Longrightarrow> square n m \<Longrightarrow>
     square n m' \<and> length hist' = length hist + length is"
proof (induction "is" arbitrary: m hist)
  case Nil
  then show ?case by simp
next
  case (Cons i rest)
  from Cons.prems(1) obtain m1 fl where
    st: "attack_step G self f l ix target i m = Inr (m1, fl)"
    and lp: "attack_loop G self f l ix target rest (m1, hist @ [fl]) = Inr (m', hist')"
    by (auto split: sum.splits)
  have "square n m1" using Cons.prems(2) st by (rule attack_step_square)
  from Cons.IH [OF lp this] show ?case by simp
qed

lemma attack_loop_frame:
  "attack_loop G self f l ix target is (m, hist) = Inr (m', hist') \<Longrightarrow> square n m \<Longrightarrow>
     py_index n target = Inr t \<Longrightarrow> u < n \<Longrightarrow> w < n \<Longrightarrow> u \<noteq> t \<Longrightarrow> w \<noteq> t \<Longrightarrow>
     m' ! u ! w = m ! u ! w"
proof (induction "is" arbitrary: m hist)
  case Nil
  then show ?case by simp
next
  case (Cons i rest)
  from Cons.prems(1) obtain m1 fl where
    st: "attack_step G self f l ix target i m = Inr (m1, fl)"
    and lp: "attack_loop G self f l ix target rest (m1, hist @ [fl]) = Inr (m', hist')"
    by (auto split: sum.splits)
  have sq1: "square n m1" using Cons.prems(2) st by (rule attack_step_square)
  have "m1 ! u ! w = m ! u ! w"
    using Cons.prems(2) st Cons.prems(3-7) by (rule attack_step_frame)
  with Cons.IH [OF lp sq1 Cons.prems(3-7)] show ?case by simp
qed

lemma attack_loop_symmetric:
  "attack_loop G self f l ix target is (m, hist) = Inr (m', hist') \<Longrightarrow> square n m \<Longrightarrow>
     adj_changes self = Some (replicate n 0) \<Longrightarrow> symmetric m \<Longrightarrow> symmetric m'"
proof (induction "is" arbitrary: m hist)
  case Nil
  then show ?case by simp
next
  case (Cons i rest)
  from Cons.prems(1) obtain m1 fl where
    st: "attack_step G self f l ix target i m = Inr (m1, fl)"
    and lp: "attack_loop G self f l ix target rest (m1, hist @ [fl]) = Inr (m', hist')"
    by (auto split: sum.splits)
  have sq1: "square n m1" using Cons.prems(2) st by (rule attack_step_square)
  have "symmetric m1" using Cons.prems(2) st Cons.prems(3,4) by (rule attack_step_symmetric)
  with Cons.IH [OF lp sq1 Cons.prems(3)] show ?case by simp
qed

lemma attack_loop_total:
  assumes ch: "adj_changes self = Some (replicate n 0)" and as: "attack_structure self"
    and pt: "py_index n target = Inr t"
    and G: "\<forall>m i. square n m \<longrightarrow> (\<exists>g. G f m l ix i = Inr g \<and> length g = n)"
  shows "square n m \<Longrightarrow> \<exists>m' hist'. attack_loop G self f l ix target is (m, hist) = Inr (m', hist')"
proof (induction "is" arbitrary: m hist)
  case Nil
  then show ?case by simp
next
  case (Cons i rest)
  from G Cons.prems obtain g where g: "G f m l ix i = Inr g" "length g = n" by blast
  from attack_step_zero [where G = G and f = f and l = l and ix = ix and i = i,
      OF Cons.prems ch as pt g] obtain m1 fl where
    st: "attack_step G self f l ix target i m = Inr (m1, fl)" by blast
  have "square n m1" using Cons.prems st by (rule attack_step_square)
  from Cons.IH [OF this, of "hist @ [fl]"] st show ?case by simp
qed

lemma attack_Inr:
  assumes "attack G chk self f adj l ix target k = Inr self'"
  shows "\<exists>m hist. attack_loop G self f l ix target (py_range k) (adj, []) = Inr (m, hist) \<and>
     chk m = None \<and> self' = self\<lparr>modified_adj := Some m\<rparr>"
  using assms by (auto simp: attack_def split: sum.splits option.splits)

lemma attack_step_self:
  "attack_step G (self\<lparr>modified_adj := x\<rparr>) f l ix target i m = attack_step G self f l ix target i m"
  by (auto simp: attack_step_def split: sum.splits option.splits)

lemma attack_loop_self:
  "attack_loop G (self\<lparr>modified_adj := x\<rparr>) f l ix target is st =
   attack_loop G self f l ix target is st"
proof (induction "is" arbitrary: st)
  case Nil
  then show ?case by simp
next
  case (Cons i rest)
  then show ?case by (cases st) (simp add: attack_step_self split: sum.splits prod.splits)
qed

subsection \<open>The loop runs to its end\<close>

lemma attack_loop_chain:
  assumes ch: "adj_changes self = Some (replicate n 0)" and as: "attack_structure self"
    and pt: "py_index n target = Inr t"
    and G: "\<forall>m i. square n m \<longrightarrow> (\<exists>g. G f m l ix i = Inr g \<and> length g = n)"
  shows "square n m \<Longrightarrow>
     \<exists>m' hist. attack_loop G self f l ix target iters (m, prev) = Inr (m', prev @ hist) \<and>
       length hist = length iters \<and> spec_flips G f l ix t iters m hist m'"
proof (induction iters arbitrary: m prev)
  case Nil
  then show ?case by simp
next
  case (Cons i rest)
  from G Cons.prems obtain g where g: "G f m l ix i = Inr g" "length g = n" by blast
  from attack_step_zero [where G = G and f = f and l = l and ix = ix and i = i,
      OF Cons.prems ch as pt g]
  obtain b where b: "argmax ((map2 (*) g (map (\<lambda>x. - 2 * x + 1) (m ! t)))[t := 0]) = Inr b"
    "b < n"
    and st: "attack_step G self f l ix target i m =
       Inr (mirrored_add m t b (- 2 * m ! t ! b + 1), (b, - 2 * m ! t ! b + 1))"
    by blast
  let ?v = "- 2 * m ! t ! b + 1"
  let ?m1 = "mirrored_add m t b ?v"
  have tn: "t < n" using pt by (rule py_index_less)
  have "length (adjusted_score g (m ! t) t) = n"
    using g(2) square_nth [OF Cons.prems tn] by (simp add: adjusted_score_def)
  with tn have ne: "adjusted_score g (m ! t) t \<noteq> []" by auto
  have fm: "first_max (adjusted_score g (m ! t) t) b"
    using ne b(1) by (intro argmax_is_first_max) (simp_all add: adjusted_score_def)
  have sq1: "square n ?m1" using Cons.prems tn b(2) by (rule mirrored_add_square)
  from Cons.IH [OF sq1, of "prev @ [(b, ?v)]"] obtain m' hist where
    lp: "attack_loop G self f l ix target rest (?m1, prev @ [(b, ?v)]) =
      Inr (m', (prev @ [(b, ?v)]) @ hist)"
    and len: "length hist = length rest"
    and sf: "spec_flips G f l ix t rest ?m1 hist m'" by blast
  have "attack_loop G self f l ix target (i # rest) (m, prev) = Inr (m', prev @ ((b, ?v) # hist))"
    using st lp by simp
  moreover have "length ((b, ?v) # hist) = length (i # rest)" using len by simp
  moreover have "spec_flips G f l ix t (i # rest) m ((b, ?v) # hist) m'"
    using g(1) fm sf by simp
  ultimately show ?case by blast
qed

lemma attack_runs_chain:
  assumes "init n fs True ft = Inr self" and "square n ori_adj"
    and "py_index n target_node = Inr t"
    and "\<forall>m i. square n m \<longrightarrow> (\<exists>g. G feats m labels idx_train i = Inr g \<and> length g = n)"
  shows "\<exists>m hist. attack_loop G self feats labels idx_train target_node (py_range k)
            (ori_adj, []) = Inr (m, hist) \<and> length hist = nat k \<and>
          spec_flips G feats labels idx_train t (py_range k) ori_adj hist m \<and>
          attack G chk self feats ori_adj labels idx_train target_node k =
            (case chk m of Some e \<Rightarrow> Inl e | None \<Rightarrow> Inr (self\<lparr>modified_adj := Some m\<rparr>))"
proof -
  have ch: "adj_changes self = Some (replicate n 0)" and as: "attack_structure self"
    using init_Inr(1,2) [OF assms(1)] by simp_all
  from attack_loop_chain [where G = G and f = feats and l = labels and ix = idx_train
      and iters = "py_range k" and prev = "[]", OF ch as assms(3,4,2)]
  obtain m hist where
    lp: "attack_loop G self feats labels idx_train target_node (py_range k) (ori_adj, []) =
      Inr (m, hist)"
    and len: "length hist = length (py_range k)"
    and sf: "spec_flips G feats labels idx_train t (py_range k) ori_adj hist m" by auto
  have "attack G chk self feats ori_adj labels idx_train target_node k =
      (case chk m of Some e \<Rightarrow> Inl e | None \<Rightarrow> Inr (self\<lparr>modified_adj := Some m\<rparr>))"
    by (simp add: attack_def lp)
  moreover have "length hist = nat k" using len by (simp add: py_range_def)
  ultimately show ?thesis using lp sf by blast
qed

lemma stub_oracle_total:
  "length g = n \<Longrightarrow>
   \<forall>m i. square n m \<longrightarrow> (\<exists>g'. stub_oracle g feats m labels ix i = Inr g' \<and> length g' = n)"
  by (simp add: stub_oracle_def)

subsection \<open>The examples, evaluated\<close>

lemma ring4_square: "square 4 ring4"
  by (simp add: square_def ring4_def)

lemma ring4_symmetric: "symmetric ring4"
  by (simp add: symmetric_def ring4_def upt_rec numeral_eq_Suc)

lemma ring4_checked: "check_adj ring4 = None"
  by (simp add: check_adj_def symmetric_def ring4_def upt_rec numeral_eq_Suc)

lemma ring_two_flips:
  "attack_loop (stub_oracle [0, - 5, 3, 1]) (fga 4) () () ix 0 (py_range 2) (ring4, []) =
   Inr ([[0, 0, 1, 1], [0, 0, 1, 0], [1, 1, 0, 1], [1, 0, 1, 0]], [(1, - 1), (2, 1)])"
  by (simp add: eval_defs numeral_eq_Suc upt_rec)

lemma ring_two_flips_checked:
  "check_adj [[0, 0, 1, 1], [0, 0, 1, 0], [1, 1, 0, 1], [1, 0, 1, 0]] = None"
  by (simp add: check_adj_def symmetric_def upt_rec numeral_eq_Suc)

lemma ring_two_flips_attack:
  "attack (stub_oracle [0, - 5, 3, 1]) check_adj (fga 4) () ring4 () ix 0 2 =
   Inr ((fga 4)\<lparr>modified_adj := Some [[0, 0, 1, 1], [0, 0, 1, 0], [1, 1, 0, 1], [1, 0, 1, 0]]\<rparr>)"
  by (simp add: attack_def ring_two_flips ring_two_flips_checked)

section \<open>The constructor refuses the attack on features\<close>

text \<open>
  C7. Constructing the attack with \<open>attack_features\<close> true fails at once, with an
  assertion error whose message says that attacking features is not supported, whatever
  the other arguments are; and an object that was constructed has \<open>attack_features\<close>
  false, so that the loop of \<open>attack\<close> never meets a request it would pass over.
\<close>

theorem init_rejects_attack_features:
  "init n feature_shape structure True = Inl (AssertionError ''not support attacking features'')
   \<and> (\<forall>self. init n feature_shape structure features = Inr self \<longrightarrow> \<not> attack_features self)"
  by (simp add: init_def base_init_def Let_def)

theorem init_rejects_attack_features_witness:
  "init 4 [] True True = Inl (AssertionError ''not support attacking features'')
   \<and> init 4 [] True False = Inr \<lparr>nnodes = 4, attack_structure = True, attack_features = False,
        adj_changes = Some [0, 0, 0, 0], feature_changes = None, modified_adj = None\<rparr>
   \<and> \<not> attack_features \<lparr>nnodes = 4, attack_structure = True, attack_features = False,
        adj_changes = Some [0, 0, 0, 0], feature_changes = None, modified_adj = None\<rparr>"
proof -
  have made: "init 4 [] True False = Inr \<lparr>nnodes = 4, attack_structure = True,
      attack_features = False, adj_changes = Some [0, 0, 0, 0], feature_changes = None,
      modified_adj = None\<rparr>"
    by (simp add: init_def base_init_def Let_def numeral_eq_Suc)
  from init_rejects_attack_features [of 4 "[]" True False]
  show ?thesis using made by simp
qed

text \<open>
  C10. The constructor fills \<open>adj_changes\<close> with zeros, and \<open>attack\<close> never writes it: the
  object it returns holds the same vector. So line 97 adds zeros to the target row, which
  yields the row itself, and line 98 writes back what the matrix held. An object that
  has been through one call of \<open>attack\<close> behaves in any further call as the fresh object
  does, with no reset of the vector.
\<close>

theorem adj_changes_never_written:
  assumes "init n fs True ft = Inr self"
    and "attack G chk self feats ori_adj labels idx_train target_node k = Inr self'"
  shows "adj_changes self = Some (replicate n 0) \<and>
     adj_changes self' = adj_changes self \<and>
     (\<forall>changes m t. adj_changes self = Some changes \<and> square n m \<and> t < n \<longrightarrow>
        broadcast (+) (m ! t) changes = Inr (m ! t) \<and> set_row m t (m ! t) = Inr m) \<and>
     attack G' chk' self' feats' adj' labels' idx' target' k' =
       attack G' chk' self feats' adj' labels' idx' target' k'"
proof -
  have ch: "adj_changes self = Some (replicate n 0)"
    using init_Inr(1) [OF assms(1)] by simp
  from attack_Inr [OF assms(2)] obtain m0 where self': "self' = self\<lparr>modified_adj := Some m0\<rparr>"
    by blast
  have same: "adj_changes self' = adj_changes self" by (simp add: self')
  have row: "broadcast (+) (m ! t) changes = Inr (m ! t) \<and> set_row m t (m ! t) = Inr m"
    if "adj_changes self = Some changes" "square n m" "t < n" for changes m t
  proof -
    have "changes = replicate n 0" using that(1) ch by simp
    then show ?thesis
      using broadcast_zero [OF square_nth [OF that(2,3)]] by (simp add: set_row_def)
  qed
  have again: "attack G' chk' self' feats' adj' labels' idx' target' k' =
       attack G' chk' self feats' adj' labels' idx' target' k'"
    by (simp add: attack_def self' attack_loop_self split: sum.splits prod.splits option.splits)
  from ch same row again show ?thesis by blast
qed

theorem adj_changes_never_written_witness:
  "init 4 [] True False = Inr (fga 4) \<and>
   attack (stub_oracle [0, - 5, 3, 1]) check_adj (fga 4) () ring4 () [0] 0 2 =
     Inr ((fga 4)\<lparr>modified_adj := Some [[0, 0, 1, 1], [0, 0, 1, 0], [1, 1, 0, 1], [1, 0, 1, 0]]\<rparr>) \<and>
   adj_changes ((fga 4)\<lparr>modified_adj := Some [[0, 0, 1, 1], [0, 0, 1, 0], [1, 1, 0, 1], [1, 0, 1, 0]]\<rparr>)
     = Some [0, 0, 0, 0] \<and>
   attack (stub_oracle [0, - 5, 3, 1]) check_adj
       ((fga 4)\<lparr>modified_adj := Some [[0, 0, 1, 1], [0, 0, 1, 0], [1, 1, 0, 1], [1, 0, 1, 0]]\<rparr>)
       () ring4 () [0] 0 2 =
     Inr ((fga 4)\<lparr>modified_adj := Some [[0, 0, 1, 1], [0, 0, 1, 0], [1, 1, 0, 1], [1, 0, 1, 0]]\<rparr>)"
proof -
  note inst = adj_changes_never_written [where G = "stub_oracle [0, - 5, 3, 1]"
      and chk = check_adj and feats = "()" and labels = "()" and idx_train = "[0]"
      and target_node = 0 and k = 2 and ori_adj = ring4
      and G' = "stub_oracle [0, - 5, 3, 1]" and chk' = check_adj and feats' = "()"
      and labels' = "()" and idx' = "[0]" and target' = 0 and k' = 2 and adj' = ring4,
      OF init_fga ring_two_flips_attack]
  have "adj_changes ((fga 4)\<lparr>modified_adj := Some [[0, 0, 1, 1], [0, 0, 1, 0], [1, 1, 0, 1], [1, 0, 1, 0]]\<rparr>)
     = Some [0, 0, 0, 0]"
    using inst by (simp add: numeral_eq_Suc)
  moreover have "attack (stub_oracle [0, - 5, 3, 1]) check_adj
       ((fga 4)\<lparr>modified_adj := Some [[0, 0, 1, 1], [0, 0, 1, 0], [1, 1, 0, 1], [1, 0, 1, 0]]\<rparr>)
       () ring4 () [0] 0 2 =
     Inr ((fga 4)\<lparr>modified_adj := Some [[0, 0, 1, 1], [0, 0, 1, 0], [1, 1, 0, 1], [1, 0, 1, 0]]\<rparr>)"
    using inst ring_two_flips_attack [of "[0]"] by simp
  ultimately show ?thesis using init_fga ring_two_flips_attack by simp
qed

section \<open>How an iteration selects and applies its flip\<close>

text \<open>
  C4. On an object the constructor returned, a square adjacency, a target in range and a
  gradient \<open>g\<close> of one entry per node, one iteration does what the specification lists:
  the adjusted score is the gradient times \<open>-2 * row[c] + 1\<close> with the entry of the
  target set to zero, \<open>best\<close> is the first index attaining its maximum, and
  \<open>delta = -2 * row[best] + 1\<close> is added to the cell \<open>(target, best)\<close> and then to the
  cell \<open>(best, target)\<close>, with no clamping of what results.
\<close>

theorem attack_step_selects_first_max:
  assumes "init n fs True ft = Inr self" and "square n madj"
    and "py_index n target_node = Inr t"
    and "G feats madj labels idx_train i = Inr g" and "length g = n"
  shows "\<exists>best. first_max (adjusted_score g (madj ! t) t) best \<and>
     attack_step G self feats labels idx_train target_node i madj =
       Inr (mirrored_add madj t best (- 2 * madj ! t ! best + 1),
            (best, - 2 * madj ! t ! best + 1))"
proof -
  have ch: "adj_changes self = Some (replicate n 0)" and as: "attack_structure self"
    using init_Inr(1,2) [OF assms(1)] by simp_all
  from attack_step_zero [where G = G and f = feats and l = labels and ix = idx_train and i = i,
      OF assms(2) ch as assms(3,4,5)]
  obtain b where b: "argmax ((map2 (*) g (map (\<lambda>x. - 2 * x + 1) (madj ! t)))[t := 0]) = Inr b"
    "b < n"
    "attack_step G self feats labels idx_train target_node i madj =
       Inr (mirrored_add madj t b (- 2 * madj ! t ! b + 1), (b, - 2 * madj ! t ! b + 1))"
    by blast
  have t: "t < n" using assms(3) by (rule py_index_less)
  have "length (adjusted_score g (madj ! t) t) = n"
    using assms(5) square_nth [OF assms(2) t] by (simp add: adjusted_score_def)
  with t have ne: "adjusted_score g (madj ! t) t \<noteq> []" by auto
  have "first_max (adjusted_score g (madj ! t) t) b"
    using ne b(1) by (intro argmax_is_first_max) (simp_all add: adjusted_score_def)
  with b(3) show ?thesis by blast
qed

theorem attack_step_selects_first_max_witness:
  "init 4 [] True False = Inr (fga 4) \<and> square 4 ring4 \<and> py_index 4 0 = Inr 0 \<and>
   stub_oracle [0, - 5, 3, 1] () ring4 () [0] 0 = Inr [0, - 5, 3, 1] \<and>
   length [0, - 5, 3, 1 :: real] = 4 \<and>
   adjusted_score [0, - 5, 3, 1] (ring4 ! 0) 0 = [0, 5, 3, - 1] \<and>
   first_max (adjusted_score [0, - 5, 3, 1] (ring4 ! 0) 0) 1 \<and>
   attack_step (stub_oracle [0, - 5, 3, 1]) (fga 4) () () [0] 0 0 ring4 =
     Inr ([[0, 0, 0, 1], [0, 0, 1, 0], [0, 1, 0, 1], [1, 0, 1, 0]], (1, - 1))"
proof -
  have h1: "init 4 [] True False = Inr (fga 4)" by (rule init_fga)
  have h2: "square 4 ring4" by (simp add: square_def ring4_def)
  have h3: "py_index 4 0 = Inr 0" by (simp add: py_index_def)
  have h4: "stub_oracle [0, - 5, 3, 1] () ring4 () [0] 0 = Inr [0, - 5, 3, 1]"
    by (simp add: stub_oracle_def)
  have h5: "length [0, - 5, 3, 1 :: real] = 4" by simp
  have sc: "adjusted_score [0, - 5, 3, 1] (ring4 ! 0) 0 = [0, 5, 3, - 1]"
    by (simp add: adjusted_score_def ring4_def)
  have ev: "attack_step (stub_oracle [0, - 5, 3, 1]) (fga 4) () () [0] 0 0 ring4 =
     Inr ([[0, 0, 0, 1], [0, 0, 1, 0], [0, 1, 0, 1], [1, 0, 1, 0]], (1, - 1))"
    by (simp add: eval_defs numeral_eq_Suc)
  from attack_step_selects_first_max [where G = "stub_oracle [0, - 5, 3, 1]" and feats = "()"
      and labels = "()" and idx_train = "[0]" and i = 0, OF h1 h2 h3 h4 h5] ev
  have "first_max (adjusted_score [0, - 5, 3, 1] (ring4 ! 0) 0) 1" by auto
  with h1 h2 h3 h4 h5 sc ev show ?thesis by simp
qed

section \<open>The entry of the target node itself\<close>

text \<open>
  C1, as stated, fails. On the ring of four nodes with target 0, one perturbation and the
  gradient \<open>[0, 5, -3, 1]\<close>, the adjusted score is \<open>[0, -5, -3, -1]\<close> as the claim says, but
  the argmax does not select index 2 and the cells \<open>(0, 2)\<close> and \<open>(2, 0)\<close> are not set
  to 1: the code selects index 0 and its output differs from the input in the cell
  \<open>(0, 0)\<close> only.
\<close>

theorem ring_scenario_selects_target:
  "adjusted_score [0, 5, - 3, 1] (ring4 ! 0) 0 = [0, - 5, - 3, - 1] \<and>
   select_flip [0, 5, - 3, 1] (ring4 ! 0) 0 = Inr 0 \<and>
   attack_loop (stub_oracle [0, 5, - 3, 1]) (fga 4) () () [0] 0 (py_range 1) (ring4, []) =
     Inr ([[2, 1, 0, 1], [1, 0, 1, 0], [0, 1, 0, 1], [1, 0, 1, 0]], [(0, 1)])"
  by (simp add: eval_defs numeral_eq_Suc upt_rec)

text \<open>
  C1, amended. In that scenario the selector computes the adjusted score
  \<open>[0, -5, -3, -1]\<close> with the self-entry zeroed; index 2 is not selected, as its score
  \<open>-3\<close> is below the score \<open>-1\<close> of index 3 and so is no maximum, with or without the
  entry of the target; and the cells \<open>(0, 2)\<close> and \<open>(2, 0)\<close> hold 0 after the iteration as
  before it.
\<close>

theorem ring_scenario_leaves_index_two:
  "adjusted_score [0, 5, - 3, 1] (ring4 ! 0) 0 = [0, - 5, - 3, - 1] \<and>
   adjusted_score [0, 5, - 3, 1] (ring4 ! 0) 0 ! 2 < adjusted_score [0, 5, - 3, 1] (ring4 ! 0) 0 ! 3 \<and>
   \<not> first_max (adjusted_score [0, 5, - 3, 1] (ring4 ! 0) 0) 2 \<and>
   select_flip [0, 5, - 3, 1] (ring4 ! 0) 0 \<noteq> Inr 2 \<and>
   (\<exists>m hist. attack_loop (stub_oracle [0, 5, - 3, 1]) (fga 4) () () [0] 0 (py_range 1)
        (ring4, []) = Inr (m, hist) \<and>
      ring4 ! 0 ! 2 = 0 \<and> m ! 0 ! 2 = 0 \<and> ring4 ! 2 ! 0 = 0 \<and> m ! 2 ! 0 = 0)"
proof -
  have sc: "adjusted_score [0, 5, - 3, 1] (ring4 ! 0) 0 = [0, - 5, - 3, - 1]"
    by (simp add: adjusted_score_def ring4_def)
  have nf: "\<not> first_max [0, - 5, - 3, - 1] 2"
    by (simp add: first_max_def upt_rec numeral_eq_Suc)
  have sel: "select_flip [0, 5, - 3, 1] (ring4 ! 0) 0 \<noteq> Inr 2"
    by (simp add: eval_defs)
  have lp: "attack_loop (stub_oracle [0, 5, - 3, 1]) (fga 4) () () [0] 0 (py_range 1)
      (ring4, []) = Inr ([[2, 1, 0, 1], [1, 0, 1, 0], [0, 1, 0, 1], [1, 0, 1, 0]], [(0, 1)])"
    by (simp add: eval_defs numeral_eq_Suc upt_rec)
  have cells: "ring4 ! 0 ! 2 = 0" "ring4 ! 2 ! 0 = 0" by (simp_all add: ring4_def)
  show ?thesis unfolding sc lp using nf sel [unfolded sc] cells by (simp add: sc)
qed

text \<open>
  C2. On the path of three nodes with target 1 and the gradient \<open>[1, 7, 2]\<close>, the adjusted
  scores of the two neighbours are \<open>-1\<close> and \<open>-2\<close>, below the zero written at the target:
  the column chosen is the target's own, and its self-entry goes from 0 to 2.
\<close>

theorem path_scenario_changes_self_entry:
  "path3 ! 1 ! 1 = 0 \<and>
   attack_loop (stub_oracle [1, 7, 2]) (fga 3) () () [0] 1 (py_range 1) (path3, []) =
     Inr ([[0, 1, 0], [1, 2, 1], [0, 1, 0]], [(1, 1)])"
  by (simp add: eval_defs numeral_eq_Suc upt_rec)

section \<open>The loop\<close>

text \<open>
  C5. For \<open>n_perturbations = k \<ge> 0\<close>, on an object the constructor returned, a square
  adjacency and a target in range, and with an oracle that returns some gradient of one
  entry per node whatever the adjacency and the iteration, the loop ends normally after
  exactly \<open>k\<close> flips, one in each iteration of \<open>range(k)\<close>: the adjacency it returns is
  the input with these \<open>k\<close> mirrored additions made in turn, each at the first maximum of
  the adjusted score of its iteration, and \<open>attack\<close> hands this adjacency to the check.
  Nothing stops the loop earlier, whatever the gradients are.
\<close>

theorem attack_makes_every_flip:
  assumes "init n fs True ft = Inr self" and "square n ori_adj"
    and "py_index n target_node = Inr t"
    and "\<forall>m i. square n m \<longrightarrow> (\<exists>g. G feats m labels idx_train i = Inr g \<and> length g = n)"
    and "0 \<le> k"
  shows "\<exists>m hist. attack_loop G self feats labels idx_train target_node (py_range k)
            (ori_adj, []) = Inr (m, hist) \<and> int (length hist) = k \<and>
          spec_flips G feats labels idx_train t (py_range k) ori_adj hist m \<and>
          attack G chk self feats ori_adj labels idx_train target_node k =
            (case chk m of Some e \<Rightarrow> Inl e | None \<Rightarrow> Inr (self\<lparr>modified_adj := Some m\<rparr>))"
proof -
  from attack_runs_chain [where G = G and feats = feats and labels = labels
      and idx_train = idx_train and k = k and chk = chk, OF assms(1-4)]
  obtain m hist where
    "attack_loop G self feats labels idx_train target_node (py_range k) (ori_adj, []) =
      Inr (m, hist)" "length hist = nat k"
    "spec_flips G feats labels idx_train t (py_range k) ori_adj hist m"
    "attack G chk self feats ori_adj labels idx_train target_node k =
      (case chk m of Some e \<Rightarrow> Inl e | None \<Rightarrow> Inr (self\<lparr>modified_adj := Some m\<rparr>))"
    by blast
  moreover from this(2) assms(5) have "int (length hist) = k" by simp
  ultimately show ?thesis by blast
qed

theorem attack_makes_every_flip_witness:
  "init 4 [] True False = Inr (fga 4) \<and> square 4 ring4 \<and> py_index 4 0 = Inr 0 \<and>
   stub_oracle [0, - 5, 3, 1] () ring4 () [0] 1 = Inr [0, - 5, 3, 1] \<and> (0::int) \<le> 2 \<and>
   attack_loop (stub_oracle [0, - 5, 3, 1]) (fga 4) () () [0] 0 (py_range 2) (ring4, []) =
     Inr ([[0, 0, 1, 1], [0, 0, 1, 0], [1, 1, 0, 1], [1, 0, 1, 0]], [(1, - 1), (2, 1)]) \<and>
   int (length [(1::nat, - 1::real), (2, 1)]) = 2 \<and>
   spec_flips (stub_oracle [0, - 5, 3, 1]) () () [0] 0 (py_range 2) ring4 [(1, - 1), (2, 1)]
     [[0, 0, 1, 1], [0, 0, 1, 0], [1, 1, 0, 1], [1, 0, 1, 0]] \<and>
   attack (stub_oracle [0, - 5, 3, 1]) check_adj (fga 4) () ring4 () [0] 0 2 =
     Inr ((fga 4)\<lparr>modified_adj := Some [[0, 0, 1, 1], [0, 0, 1, 0], [1, 1, 0, 1], [1, 0, 1, 0]]\<rparr>)"
proof -
  have h3: "py_index 4 0 = Inr 0" by (simp add: py_index_def)
  have h4: "\<forall>m i. square 4 m \<longrightarrow>
      (\<exists>g'. stub_oracle [0, - 5, 3, 1] () m () [0] i = Inr g' \<and> length g' = 4)"
    by (rule stub_oracle_total) simp
  have h5: "(0::int) \<le> 2" by simp
  from attack_makes_every_flip [where G = "stub_oracle [0, - 5, 3, 1]" and feats = "()"
      and labels = "()" and idx_train = "[0]" and chk = check_adj,
      OF init_fga ring4_square h3 h4 h5]
  obtain m hist where
    "attack_loop (stub_oracle [0, - 5, 3, 1]) (fga 4) () () [0] 0 (py_range 2) (ring4, []) =
      Inr (m, hist)" "int (length hist) = 2"
    "spec_flips (stub_oracle [0, - 5, 3, 1]) () () [0] 0 (py_range 2) ring4 hist m"
    "attack (stub_oracle [0, - 5, 3, 1]) check_adj (fga 4) () ring4 () [0] 0 2 =
      (case check_adj m of Some e \<Rightarrow> Inl e | None \<Rightarrow> Inr ((fga 4)\<lparr>modified_adj := Some m\<rparr>))"
    by blast
  with ring_two_flips [of "[0]"]
  have "int (length [(1::nat, - 1::real), (2, 1)]) = 2"
    "spec_flips (stub_oracle [0, - 5, 3, 1]) () () [0] 0 (py_range 2) ring4 [(1, - 1), (2, 1)]
     [[0, 0, 1, 1], [0, 0, 1, 0], [1, 1, 0, 1], [1, 0, 1, 0]]"
    "attack (stub_oracle [0, - 5, 3, 1]) check_adj (fga 4) () ring4 () [0] 0 2 =
     Inr ((fga 4)\<lparr>modified_adj := Some [[0, 0, 1, 1], [0, 0, 1, 0], [1, 1, 0, 1], [1, 0, 1, 0]]\<rparr>)"
    by (simp_all add: ring_two_flips_checked)
  then show ?thesis
    using init_fga ring4_square h3 ring_two_flips [of "[0]"] by (simp add: stub_oracle_def)
qed

text \<open>
  C8, as stated, fails: the output is not produced for every input. \<open>attack\<close> runs
  \<open>check_adj\<close> on the adjacency before it stores it, and with the check as the
  specification presumes it, an adjacency that is not symmetric is refused even with
  no perturbation: the call raises and stores nothing.
\<close>

theorem attack_zero_perturbations_rejected:
  "attack (stub_oracle [0, 0]) check_adj (fga 2) () [[0, 1], [0, 0]] () [0] 0 0 =
     Inl (AssertionError ''check_adj'')"
  by (simp add: attack_def py_range_def check_adj_def symmetric_def upt_rec numeral_eq_Suc)

text \<open>
  C8, amended. With \<open>n_perturbations = 0\<close> the loop makes no flip and returns the input
  adjacency as it is; \<open>attack\<close> then stores exactly the input as \<open>modified_adj\<close> when the
  check accepts the input, and raises what the check raises, storing nothing, when it
  does not.
\<close>

theorem attack_zero_perturbations:
  "attack_loop G self feats labels idx_train target_node (py_range 0) (ori_adj, []) =
     Inr (ori_adj, []) \<and>
   attack G chk self feats ori_adj labels idx_train target_node 0 =
     (case chk ori_adj of Some e \<Rightarrow> Inl e | None \<Rightarrow> Inr (self\<lparr>modified_adj := Some ori_adj\<rparr>))"
  by (simp add: attack_def py_range_def)

theorem attack_zero_perturbations_witness:
  "check_adj ring4 = None \<and>
   attack (stub_oracle [0, 5, - 3, 1]) check_adj (fga 4) () ring4 () [0] 0 0 =
     Inr ((fga 4)\<lparr>modified_adj := Some ring4\<rparr>)"
  using attack_zero_perturbations [of "stub_oracle [0, 5, - 3, 1]" "fga 4" "()" "()" "[0]" 0
      ring4 check_adj] ring4_checked by simp

text \<open>
  C3. On an object the constructor returned and a symmetric square adjacency, the
  adjacency is symmetric after every number \<open>k\<close> of iterations of the loop, and so is the
  \<open>modified_adj\<close> that \<open>attack\<close> stores.
\<close>

theorem attack_preserves_symmetry:
  assumes "init n fs True ft = Inr self" and "square n ori_adj" and "symmetric ori_adj"
  shows "(\<forall>m hist. attack_loop G self feats labels idx_train target_node (py_range k)
              (ori_adj, []) = Inr (m, hist) \<longrightarrow> symmetric m) \<and>
         (\<forall>self'. attack G chk self feats ori_adj labels idx_train target_node k = Inr self'
              \<longrightarrow> (\<exists>m. modified_adj self' = Some m \<and> symmetric m))"
proof -
  have ch: "adj_changes self = Some (replicate n 0)"
    using init_Inr(1) [OF assms(1)] by simp
  have loop: "symmetric m"
    if "attack_loop G self feats labels idx_train target_node (py_range k) (ori_adj, []) =
        Inr (m, hist)" for m hist
    using that assms(2) ch assms(3) by (rule attack_loop_symmetric)
  have "\<exists>m. modified_adj self' = Some m \<and> symmetric m"
    if "attack G chk self feats ori_adj labels idx_train target_node k = Inr self'" for self'
  proof -
    from attack_Inr [OF that] obtain m hist where
      "attack_loop G self feats labels idx_train target_node (py_range k) (ori_adj, []) =
        Inr (m, hist)" and "self' = self\<lparr>modified_adj := Some m\<rparr>" by blast
    then show ?thesis using loop by auto
  qed
  with loop show ?thesis by blast
qed

theorem attack_preserves_symmetry_witness:
  "init 4 [] True False = Inr (fga 4) \<and> square 4 ring4 \<and> symmetric ring4 \<and>
   attack (stub_oracle [0, - 5, 3, 1]) check_adj (fga 4) () ring4 () [0] 0 2 =
     Inr ((fga 4)\<lparr>modified_adj := Some [[0, 0, 1, 1], [0, 0, 1, 0], [1, 1, 0, 1], [1, 0, 1, 0]]\<rparr>) \<and>
   symmetric [[0, 0, 1, 1], [0, 0, 1, 0], [1, 1, 0, 1], [1, 0, 1, 0]]"
proof -
  note inst = attack_preserves_symmetry [where G = "stub_oracle [0, - 5, 3, 1]" and chk = check_adj
      and feats = "()" and labels = "()" and idx_train = "[0]" and target_node = 0 and k = 2,
      OF init_fga ring4_square ring4_symmetric]
  from inst ring_two_flips_attack [of "[0]"]
  have "symmetric [[0, 0, 1, 1], [0, 0, 1, 0], [1, 1, 0, 1], [1, 0, 1, 0]]" by auto
  then show ?thesis
    using init_fga ring4_square ring4_symmetric ring_two_flips_attack by simp
qed

text \<open>
  C9. For nodes \<open>u\<close> and \<open>v\<close> both different from the target, the cell \<open>(u, v)\<close> is the same
  after the loop, and in the \<open>modified_adj\<close> that \<open>attack\<close> stores, as in the input.
\<close>

theorem attack_changes_only_target_row_and_column:
  assumes "square n ori_adj" and "py_index n target_node = Inr t"
    and "u < n" and "v < n" and "u \<noteq> t" and "v \<noteq> t"
  shows "(\<forall>m hist. attack_loop G self feats labels idx_train target_node (py_range k)
              (ori_adj, []) = Inr (m, hist) \<longrightarrow> m ! u ! v = ori_adj ! u ! v) \<and>
         (\<forall>self'. attack G chk self feats ori_adj labels idx_train target_node k = Inr self'
              \<longrightarrow> (\<exists>m. modified_adj self' = Some m \<and> m ! u ! v = ori_adj ! u ! v))"
proof -
  have loop: "m ! u ! v = ori_adj ! u ! v"
    if "attack_loop G self feats labels idx_train target_node (py_range k) (ori_adj, []) =
        Inr (m, hist)" for m hist
    using that assms by (rule attack_loop_frame)
  have "\<exists>m. modified_adj self' = Some m \<and> m ! u ! v = ori_adj ! u ! v"
    if "attack G chk self feats ori_adj labels idx_train target_node k = Inr self'" for self'
  proof -
    from attack_Inr [OF that] obtain m hist where
      "attack_loop G self feats labels idx_train target_node (py_range k) (ori_adj, []) =
        Inr (m, hist)" and "self' = self\<lparr>modified_adj := Some m\<rparr>" by blast
    then show ?thesis using loop by auto
  qed
  with loop show ?thesis by blast
qed

theorem attack_changes_only_target_row_and_column_witness:
  "square 4 ring4 \<and> py_index 4 0 = Inr 0 \<and> (1::nat) < 4 \<and> (2::nat) < 4 \<and> (1::nat) \<noteq> 0 \<and>
   (2::nat) \<noteq> 0 \<and>
   attack (stub_oracle [0, - 5, 3, 1]) check_adj (fga 4) () ring4 () [0] 0 2 =
     Inr ((fga 4)\<lparr>modified_adj := Some [[0, 0, 1, 1], [0, 0, 1, 0], [1, 1, 0, 1], [1, 0, 1, 0]]\<rparr>) \<and>
   [[0, 0, 1, 1], [0, 0, 1, 0], [1, 1, 0, 1], [1, 0, 1, 0]] ! 1 ! 2 = ring4 ! 1 ! 2"
proof -
  have h2: "py_index 4 0 = Inr 0" by (simp add: py_index_def)
  note inst = attack_changes_only_target_row_and_column [where G = "stub_oracle [0, - 5, 3, 1]"
      and chk = check_adj and self = "fga 4" and feats = "()" and labels = "()"
      and idx_train = "[0]" and k = 2 and u = 1 and v = 2, OF ring4_square h2]
  from inst ring_two_flips_attack [of "[0]"]
  have "[[0, 0, 1, 1], [0, 0, 1, 0], [1, 1, 0, 1], [1, 0, 1, 0]] ! 1 ! 2 = ring4 ! 1 ! 2"
    by auto
  then show ?thesis using ring4_square h2 ring_two_flips_attack by simp
qed

section \<open>Empty training indices\<close>

text \<open>
  C6, as stated, fails: \<open>attack\<close> has no check of \<open>idx_train\<close>. Called with the empty list
  it asks the oracle for a gradient as it does with any other, and here it returns its
  result.
\<close>

theorem attack_accepts_empty_train_indices:
  "attack (stub_oracle [0, - 5, 3, 1]) check_adj (fga 4) () ring4 () [] 0 2 =
   Inr ((fga 4)\<lparr>modified_adj := Some [[0, 0, 1, 1], [0, 0, 1, 0], [1, 1, 0, 1], [1, 0, 1, 0]]\<rparr>)"
  by (rule ring_two_flips_attack)

text \<open>
  C6, amended. With empty training indices \<open>attack\<close> raises no error of its own and makes
  no check before the gradient is computed: the empty list is what the oracle is given
  in every iteration, and when the oracle returns gradients of one entry per node for
  it, the loop makes all its \<open>n_perturbations\<close> flips, each from the gradient the oracle
  returned for the empty list at that iteration, and \<open>attack\<close> ends with whatever the
  check says of the result.
\<close>

theorem attack_passes_empty_train_indices_on:
  assumes "init n fs True ft = Inr self" and "square n ori_adj"
    and "py_index n target_node = Inr t"
    and "\<forall>m i. square n m \<longrightarrow> (\<exists>g. G feats m labels [] i = Inr g \<and> length g = n)"
  shows "\<exists>m hist. attack_loop G self feats labels [] target_node (py_range k) (ori_adj, []) =
            Inr (m, hist) \<and> length hist = nat k \<and>
          spec_flips G feats labels [] t (py_range k) ori_adj hist m \<and>
          attack G chk self feats ori_adj labels [] target_node k =
            (case chk m of Some e \<Rightarrow> Inl e | None \<Rightarrow> Inr (self\<lparr>modified_adj := Some m\<rparr>))"
  using assms by (rule attack_runs_chain)

theorem attack_passes_empty_train_indices_on_witness:
  "init 4 [] True False = Inr (fga 4) \<and> square 4 ring4 \<and> py_index 4 (- 4) = Inr 0 \<and>
   stub_oracle [0, - 5, 3, 1] () ring4 () [] 0 = Inr [0, - 5, 3, 1] \<and>
   attack_loop (stub_oracle [0, - 5, 3, 1]) (fga 4) () () [] (- 4) (py_range 2) (ring4, []) =
     Inr ([[0, 0, 1, 1], [0, 0, 1, 0], [1, 1, 0, 1], [1, 0, 1, 0]], [(1, - 1), (2, 1)]) \<and>
   spec_flips (stub_oracle [0, - 5, 3, 1]) () () [] 0 (py_range 2) ring4 [(1, - 1), (2, 1)]
     [[0, 0, 1, 1], [0, 0, 1, 0], [1, 1, 0, 1], [1, 0, 1, 0]] \<and>
   attack (stub_oracle [0, - 5, 3, 1]) check_adj (fga 4) () ring4 () [] (- 4) 2 =
     Inr ((fga 4)\<lparr>modified_adj := Some [[0, 0, 1, 1], [0, 0, 1, 0], [1, 1, 0, 1], [1, 0, 1, 0]]\<rparr>)"
proof -
  have h3: "py_index 4 (- 4) = Inr 0" by (simp add: py_index_def)
  have h4: "\<forall>m i. square 4 m \<longrightarrow>
      (\<exists>g'. stub_oracle [0, - 5, 3, 1] () m () [] i = Inr g' \<and> length g' = 4)"
    by (rule stub_oracle_total) simp
  have ev: "attack_loop (stub_oracle [0, - 5, 3, 1]) (fga 4) () () [] (- 4) (py_range 2)
      (ring4, []) =
     Inr ([[0, 0, 1, 1], [0, 0, 1, 0], [1, 1, 0, 1], [1, 0, 1, 0]], [(1, - 1), (2, 1)])"
    by (simp add: eval_defs numeral_eq_Suc upt_rec)
  from attack_passes_empty_train_indices_on [where G = "stub_oracle [0, - 5, 3, 1]"
      and feats = "()" and labels = "()" and chk = check_adj and k = 2,
      OF init_fga ring4_square h3 h4]
  obtain m hist where
    "attack_loop (stub_oracle [0, - 5, 3, 1]) (fga 4) () () [] (- 4) (py_range 2) (ring4, []) =
      Inr (m, hist)"
    "spec_flips (stub_oracle [0, - 5, 3, 1]) () () [] 0 (py_range 2) ring4 hist m"
    "attack (stub_oracle [0, - 5, 3, 1]) check_adj (fga 4) () ring4 () [] (- 4) 2 =
      (case check_adj m of Some e \<Rightarrow> Inl e | None \<Rightarrow> Inr ((fga 4)\<lparr>modified_adj := Some m\<rparr>))"
    by blast
  with ev have
    "spec_flips (stub_oracle [0, - 5, 3, 1]) () () [] 0 (py_range 2) ring4 [(1, - 1), (2, 1)]
     [[0, 0, 1, 1], [0, 0, 1, 0], [1, 1, 0, 1], [1, 0, 1, 0]]"
    "attack (stub_oracle [0, - 5, 3, 1]) check_adj (fga 4) () ring4 () [] (- 4) 2 =
     Inr ((fga 4)\<lparr>modified_adj := Some [[0, 0, 1, 1], [0, 0, 1, 0], [1, 1, 0, 1], [1, 0, 1, 0]]\<rparr>)"
    by (simp_all add: ring_two_flips_checked)
  then show ?thesis using init_fga ring4_square h3 ev by (simp add: stub_oracle_def)
qed

end
